theory Spec2Isabelle
  imports Main "HOL-Library.Word"
begin

unbundle bit_operations_syntax

section \<open>Data model of main.go\<close>

text \<open>
  The Go struct \<^verbatim>\<open>GameOfLife\<close> becomes a record. The field is a Go
  \<^verbatim>\<open>map[int]map[int]byte\<close>, a map from row index to a map from column
  index to a byte. Go's \<^verbatim>\<open>int\<close> for coordinates and sizes is modelled as an
  unbounded integer: the arithmetic on them here is \<open>x \<plusminus> 1\<close> and a subtraction of
  the status width, on the sizes of a terminal. The generation is a Go \<^verbatim>\<open>int\<close>
  that \<^verbatim>\<open>tick\<close> increments without a bound, and the delay is a
  \<^verbatim>\<open>time.Duration\<close>, which is an \<^verbatim>\<open>int64\<close>; both are 64-bit words read as
  two's complement (\<^verbatim>\<open>int\<close> at its width on a 64-bit platform), so that
  \<^verbatim>\<open>generation++\<close> and \<^verbatim>\<open>+= 50\<close> wrap as they do in Go.
  The channel \<^verbatim>\<open>stop\<close> is a flag that says whether it has been closed.
  The screen is outside the model, except for the calls of \<^verbatim>\<open>drawCell\<close>,
  which are collected in an output list; the status panel (\<^verbatim>\<open>drawState\<close>,
  \<^verbatim>\<open>emitStr\<close>) only writes to the screen and is left out.
\<close>

type_synonym byte = "8 word"
type_synonym row = "int \<rightharpoonup> byte"
type_synonym fieldmap = "int \<rightharpoonup> row"

record GameOfLife =
  width :: int
  height :: int
  evolution :: bool
  delay :: "64 word"
  field :: fieldmap
  stop :: bool
  generation :: "64 word"
  stateWidth :: int

text \<open>A call \<^verbatim>\<open>screen.SetContent(col, row, glyph, nil, style)\<close>.\<close>

datatype draw = SetContent int int char

text \<open>
  Reading \<^verbatim>\<open>m[y][x]\<close>: a missing row reads as the nil map, and a missing key
  of any map, nil or not, reads as the zero byte. Reading never panics.
\<close>

definition field_get :: "fieldmap \<Rightarrow> int \<Rightarrow> int \<Rightarrow> byte" where
  "field_get m y x =
     (case m y of None \<Rightarrow> 0
      | Some r \<Rightarrow> (case r x of None \<Rightarrow> 0 | Some b \<Rightarrow> b))"

text \<open>
  Writing \<^verbatim>\<open>m[y][x] = v\<close>: Go panics on an assignment to an entry of a nil
  map, which is what \<^verbatim>\<open>m[y]\<close> is when row \<open>y\<close> was never made. The panic
  is the value \<open>None\<close>.
\<close>

definition field_set :: "fieldmap \<Rightarrow> int \<Rightarrow> int \<Rightarrow> byte \<Rightarrow> fieldmap option" where
  "field_set m y x v =
     (case m y of None \<Rightarrow> None
      | Some r \<Rightarrow> Some (m(y \<mapsto> r(x \<mapsto> v))))"

text \<open>\<^verbatim>\<open>makeNewMap\<close>: the loop \<^verbatim>\<open>for i := 0; i < h; i++\<close> makes one empty row per index.\<close>

function makeNewMap_loop :: "int \<Rightarrow> int \<Rightarrow> fieldmap \<Rightarrow> fieldmap" where
  "makeNewMap_loop i h m =
     (if i < h then makeNewMap_loop (i + 1) h (m(i \<mapsto> Map.empty)) else m)"
  by pat_completeness auto
termination
  by (relation "measure (\<lambda>(i, h, m). nat (h - i))") auto

declare makeNewMap_loop.simps [simp del]

definition makeNewMap :: "int \<Rightarrow> int \<Rightarrow> fieldmap" where
  "makeNewMap w h = makeNewMap_loop 0 h Map.empty"

text \<open>\<^verbatim>\<open>NewGame\<close>, given the size \<open>(sw, sh)\<close> that \<^verbatim>\<open>screen.Size()\<close> returns.\<close>

definition NewGame :: "int \<Rightarrow> int \<Rightarrow> GameOfLife" where
  "NewGame sw sh =
     (let w = sw - 10; h = sh in
      \<lparr> width = w, height = h, evolution = False, delay = 500,
        field = makeNewMap w h, stop = False, generation = 0, stateWidth = 10 \<rparr>)"

text \<open>
  \<^verbatim>\<open>nextCellState\<close>: the two nested loops over \<open>i, j \<in> {-1, 0, 1}\<close> add up the
  bytes of the nine cells around and including \<open>(x, y)\<close>, after the two wrap tests.
\<close>

definition nextCellState :: "GameOfLife \<Rightarrow> int \<Rightarrow> int \<Rightarrow> byte" where
  "nextCellState game x y =
     (let neigbors =
        (\<Sum>i\<leftarrow>[-1, 0, 1]. \<Sum>j\<leftarrow>[-1, 0, 1].
           (let nx = x + i; ny = y + j;
                nx = (if nx < 0 then width game - 1
                      else if nx = width game then 0 else nx);
                ny = (if ny < 0 then height game - 1
                      else if ny = height game then 0 else ny)
            in uint (field_get (field game) ny nx)))
      in if neigbors = 3 then 1
         else if neigbors = 4 then field_get (field game) y x
         else 0)"

text \<open>\<^verbatim>\<open>drawCell\<close>: the cell's glyph goes to screen column \<open>x + stateWidth\<close>.\<close>

definition drawCell :: "GameOfLife \<Rightarrow> int \<Rightarrow> int \<Rightarrow> byte \<Rightarrow> draw" where
  "drawCell game x y state =
     (if state = 1 then SetContent (x + stateWidth game) y (CHR ''X'')
      else SetContent (x + stateWidth game) y (CHR '' ''))"

text \<open>
  \<^verbatim>\<open>tick\<close>: the inner loop is \<^verbatim>\<open>for x := 0; x <= game.width; x++\<close>, the
  outer one \<^verbatim>\<open>for y := 0; y < game.height; y++\<close>. Each iteration stores the next
  state in \<open>nextMap\<close> and draws the cell when it differs from the old field.
\<close>

function tick_cols ::
  "GameOfLife \<Rightarrow> int \<Rightarrow> int \<Rightarrow> fieldmap \<Rightarrow> draw list \<Rightarrow> (fieldmap \<times> draw list) option" where
  "tick_cols game y x nextMap out =
     (if x \<le> width game then
        (case field_set nextMap y x (nextCellState game x y) of
           None \<Rightarrow> None
         | Some nm \<Rightarrow>
             tick_cols game y (x + 1) nm
               (if field_get nm y x \<noteq> field_get (field game) y x
                then out @ [drawCell game x y (field_get nm y x)] else out))
      else Some (nextMap, out))"
  by pat_completeness auto
termination
  by (relation "measure (\<lambda>(game, y, x, nextMap, out). nat (width game + 1 - x))") auto

declare tick_cols.simps [simp del]

function tick_rows ::
  "GameOfLife \<Rightarrow> int \<Rightarrow> fieldmap \<Rightarrow> draw list \<Rightarrow> (fieldmap \<times> draw list) option" where
  "tick_rows game y nextMap out =
     (if y < height game then
        (case tick_cols game y 0 nextMap out of
           None \<Rightarrow> None
         | Some (nm, out') \<Rightarrow> tick_rows game (y + 1) nm out')
      else Some (nextMap, out))"
  by pat_completeness auto
termination
  by (relation "measure (\<lambda>(game, y, nextMap, out). nat (height game - y))") auto

declare tick_rows.simps [simp del]

definition tick :: "GameOfLife \<Rightarrow> (GameOfLife \<times> draw list) option" where
  "tick game =
     (case tick_rows game 0 (makeNewMap (width game) (height game)) [] of
        None \<Rightarrow> None
      | Some (nextMap, out) \<Rightarrow>
          Some (game\<lparr>field := nextMap, generation := generation game + 1\<rparr>, out))"

text \<open>\<^verbatim>\<open>reverseCell\<close>: \<^verbatim>\<open>game.field[y][x] ^= 1\<close>, then the cell is drawn.\<close>

definition reverseCell :: "GameOfLife \<Rightarrow> int \<Rightarrow> int \<Rightarrow> (GameOfLife \<times> draw list) option" where
  "reverseCell game x y =
     (case field_set (field game) y x (field_get (field game) y x XOR 1) of
        None \<Rightarrow> None
      | Some f \<Rightarrow> Some (game\<lparr>field := f\<rparr>, [drawCell game x y (field_get f y x)]))"

definition switchMode :: "GameOfLife \<Rightarrow> GameOfLife" where
  "switchMode game =
     (if evolution game then game\<lparr>evolution := False\<rparr> else game\<lparr>evolution := True\<rparr>)"

text \<open>
  \<^verbatim>\<open>increaseDelay\<close> and \<^verbatim>\<open>decreaseDelay\<close>: 64-bit arithmetic, and a signed
  test \<^verbatim>\<open>newDelay < 0\<close>.
\<close>

definition increaseDelay :: "GameOfLife \<Rightarrow> GameOfLife" where
  "increaseDelay game = game\<lparr>delay := delay game + 50\<rparr>"

definition decreaseDelay :: "GameOfLife \<Rightarrow> GameOfLife" where
  "decreaseDelay game =
     (let newDelay = delay game - 50;
          newDelay = (if newDelay <s 0 then 0 else newDelay)
      in game\<lparr>delay := newDelay\<rparr>)"

text \<open>
  \<^verbatim>\<open>resize\<close>: the outer loop \<^verbatim>\<open>for y := 0; y < h; y++\<close> breaks before the
  copy when \<^verbatim>\<open>y >= game.height\<close>; the inner loop
  \<^verbatim>\<open>for x := 0; x <= w; x++\<close> copies the cell, draws it when it is 1, and only
  then breaks when \<^verbatim>\<open>x >= game.width\<close>. Here \<open>w\<close> is already the new width.
\<close>

function resize_cols ::
  "GameOfLife \<Rightarrow> int \<Rightarrow> int \<Rightarrow> int \<Rightarrow> fieldmap \<Rightarrow> draw list \<Rightarrow> (fieldmap \<times> draw list) option" where
  "resize_cols game w y x newField out =
     (if x \<le> w then
        (case field_set newField y x (field_get (field game) y x) of
           None \<Rightarrow> None
         | Some nf \<Rightarrow>
             (let out' = (if field_get nf y x = 1
                          then out @ [drawCell game x y (field_get nf y x)] else out)
              in if x \<ge> width game then Some (nf, out')
                 else resize_cols game w y (x + 1) nf out'))
      else Some (newField, out))"
  by pat_completeness auto
termination
  by (relation "measure (\<lambda>(game, w, y, x, newField, out). nat (w + 1 - x))") auto

declare resize_cols.simps [simp del]

function resize_rows ::
  "GameOfLife \<Rightarrow> int \<Rightarrow> int \<Rightarrow> int \<Rightarrow> fieldmap \<Rightarrow> draw list \<Rightarrow> (fieldmap \<times> draw list) option" where
  "resize_rows game w h y newField out =
     (if y < h then
        (if y \<ge> height game then Some (newField, out)
         else (case resize_cols game w y 0 newField out of
                 None \<Rightarrow> None
               | Some (nf, out') \<Rightarrow> resize_rows game w h (y + 1) nf out'))
      else Some (newField, out))"
  by pat_completeness auto
termination
  by (relation "measure (\<lambda>(game, w, h, y, newField, out). nat (h - y))") auto

declare resize_rows.simps [simp del]

text \<open>The arguments of \<^verbatim>\<open>resize\<close> are the size of the terminal.\<close>

definition resize :: "GameOfLife \<Rightarrow> int \<Rightarrow> int \<Rightarrow> (GameOfLife \<times> draw list) option" where
  "resize game w0 h =
     (let w = w0 - stateWidth game in
      case resize_rows game w h 0 (makeNewMap w h) [] of
        None \<Rightarrow> None
      | Some (newField, out) \<Rightarrow>
          Some (game\<lparr>evolution := False, width := w, height := h, field := newField\<rparr>, out))"

subsection \<open>The event loop of \<^verbatim>\<open>Start\<close>\<close>

text \<open>
  The events of the terminal library: a key, a mouse event with its button mask (a 16-bit
  mask whose lowest bit is the primary button) and its position, and a resize, which
  carries the size that \<^verbatim>\<open>screen.Size()\<close> then returns.
\<close>

datatype key = KeyEscape | KeyEnter | KeyLeft | KeyRight | KeyRune char | KeyOther

datatype event = EventKey key | EventMouse "16 word" int int | EventResize int int

definition Button1 :: "16 word" where
  "Button1 = 1"

fun handleEvent :: "GameOfLife \<Rightarrow> event \<Rightarrow> (GameOfLife \<times> draw list) option" where
  "handleEvent game (EventKey KeyEscape) = Some (game\<lparr>stop := True\<rparr>, [])"
| "handleEvent game (EventKey KeyEnter) = Some (game\<lparr>stop := True\<rparr>, [])"
| "handleEvent game (EventKey KeyLeft) = Some (decreaseDelay game, [])"
| "handleEvent game (EventKey KeyRight) = Some (increaseDelay game, [])"
| "handleEvent game (EventKey (KeyRune c)) =
     (if c = CHR '' '' then Some (switchMode game, [])
      else if c = CHR ''q'' \<or> c = CHR ''Q'' then Some (game\<lparr>stop := True\<rparr>, [])
      else Some (game, []))"
| "handleEvent game (EventKey KeyOther) = Some (game, [])"
| "handleEvent game (EventMouse buttons x y) =
     (if buttons AND Button1 \<noteq> 0 then
        (if x \<ge> stateWidth game then reverseCell game (x - stateWidth game) y
         else Some (game, []))
      else Some (game, []))"
| "handleEvent game (EventResize sw sh) = resize game sw sh"

text \<open>The main loop after the timer fires: a tick when the game is playing.\<close>

definition timerExpired :: "GameOfLife \<Rightarrow> (GameOfLife \<times> draw list) option" where
  "timerExpired game = (if evolution game then tick game else Some (game, []))"

subsection \<open>Sequences of method calls\<close>

text \<open>
  A sequence of calls on one game object, run in order; a panic ends the program, so the
  run has no state after it.
\<close>

datatype call = Tick | ReverseCell int int | Resize int int
  | IncreaseDelay | DecreaseDelay | SwitchMode

fun exec :: "GameOfLife \<Rightarrow> call \<Rightarrow> GameOfLife option" where
  "exec game Tick = map_option fst (tick game)"
| "exec game (ReverseCell x y) = map_option fst (reverseCell game x y)"
| "exec game (Resize w h) = map_option fst (resize game w h)"
| "exec game IncreaseDelay = Some (increaseDelay game)"
| "exec game DecreaseDelay = Some (decreaseDelay game)"
| "exec game SwitchMode = Some (switchMode game)"

fun run :: "GameOfLife \<Rightarrow> call list \<Rightarrow> GameOfLife option" where
  "run game [] = Some game"
| "run game (c # cs) = (case exec game c of None \<Rightarrow> None | Some game' \<Rightarrow> run game' cs)"

section \<open>Invariants and the words of the specification\<close>

text \<open>
  The shape \<^verbatim>\<open>makeNewMap\<close> gives the field: a row map for each row index of
  the grid and for no other.
\<close>

definition rows_made :: "GameOfLife \<Rightarrow> bool" where
  "rows_made game = (\<forall>y. (field game y \<noteq> None) = (0 \<le> y \<and> y < height game))"

text \<open>Every cell reads as 0 (dead) or 1 (alive).\<close>

definition binary_cells :: "GameOfLife \<Rightarrow> bool" where
  "binary_cells game = (\<forall>x y. field_get (field game) y x = 0 \<or> field_get (field game) y x = 1)"

text \<open>
  The specification's \<open>neighborCount\<close>: the sum of the states of the eight toroidal
  neighbours of \<open>(x, y)\<close>, indices taken modulo the width and the height, the cell
  itself excluded.
\<close>

definition spec_neighborCount :: "GameOfLife \<Rightarrow> int \<Rightarrow> int \<Rightarrow> int" where
  "spec_neighborCount game x y =
     (\<Sum>(i, j)\<leftarrow>[(-1, -1), (-1, 0), (-1, 1), (0, -1), (0, 1), (1, -1), (1, 0), (1, 1)].
        uint (field_get (field game) ((y + j) mod height game) ((x + i) mod width game)))"

text \<open>
  The specification's \<open>nextState\<close>, word for word: three live neighbours make the cell
  alive, four leave it as it is, any other count makes it dead.
\<close>

definition spec_nextState :: "GameOfLife \<Rightarrow> int \<Rightarrow> int \<Rightarrow> byte" where
  "spec_nextState game x y =
     (let n = spec_neighborCount game x y
      in if n = 3 then 1 else if n = 4 then field_get (field game) y x else 0)"

text \<open>
  Conway's rule: a live cell survives with two or three live neighbours, a dead cell is
  born with exactly three.
\<close>

definition conway_rule :: "bool \<Rightarrow> int \<Rightarrow> bool" where
  "conway_rule alive n = (if alive then n = 2 \<or> n = 3 else n = 3)"

text \<open>
  The specification's speed adjustment on an unbounded duration: a fixed step of 50, with
  a floor of zero on the way down.
\<close>

fun spec_delay :: "int \<Rightarrow> call \<Rightarrow> int" where
  "spec_delay d IncreaseDelay = d + 50"
| "spec_delay d DecreaseDelay = max 0 (d - 50)"
| "spec_delay d c = d"

subsection \<open>Concrete games\<close>

text \<open>
  A game on a terminal of 13 columns and 3 rows, so a grid of 3 by 3, after three clicks
  that make its last column alive; and the same grid written out.
\<close>

definition last_column_calls :: "call list" where
  "last_column_calls = [ReverseCell 2 0, ReverseCell 2 1, ReverseCell 2 2]"

definition last_column_game :: GameOfLife where
  "last_column_game =
     \<lparr> width = 3, height = 3, evolution = False, delay = 500,
       field = [0 \<mapsto> [2 \<mapsto> 1], 1 \<mapsto> [2 \<mapsto> 1], 2 \<mapsto> [2 \<mapsto> 1]],
       stop = False, generation = 0, stateWidth = 10 \<rparr>"

text \<open>A grid of 4 by 4 with one live cell at \<open>(3, 3)\<close>.\<close>

definition corner_game :: GameOfLife where
  "corner_game =
     \<lparr> width = 4, height = 4, evolution = False, delay = 500,
       field = [0 \<mapsto> Map.empty, 1 \<mapsto> Map.empty, 2 \<mapsto> Map.empty, 3 \<mapsto> [3 \<mapsto> 1]],
       stop = False, generation = 0, stateWidth = 10 \<rparr>"

section \<open>The field map and the loops\<close>

lemma makeNewMap_loop_apply:
  "makeNewMap_loop i h m y = (if i \<le> y \<and> y < h then Some Map.empty else m y)"
proof (induction i h m rule: makeNewMap_loop.induct)
  case (1 i h m)
  show ?case
  proof (cases "i < h")
    case True
    have "makeNewMap_loop i h m y = makeNewMap_loop (i + 1) h (m(i \<mapsto> Map.empty)) y"
      using True by (subst makeNewMap_loop.simps) simp
    also have "\<dots> = (if i + 1 \<le> y \<and> y < h then Some Map.empty else (m(i \<mapsto> Map.empty)) y)"
      by (rule "1.IH" [OF True])
    also have "\<dots> = (if i \<le> y \<and> y < h then Some Map.empty else m y)"
      using True by auto
    finally show ?thesis .
  next
    case False
    then show ?thesis
      by (subst makeNewMap_loop.simps) auto
  qed
qed

lemma makeNewMap_apply:
  "makeNewMap w h y = (if 0 \<le> y \<and> y < h then Some Map.empty else None)"
  by (simp add: makeNewMap_def makeNewMap_loop_apply)

lemma field_get_makeNewMap: "field_get (makeNewMap w h) y x = 0"
  by (simp add: field_get_def makeNewMap_apply)

lemma field_set_None: "field_set m y x v = None \<longleftrightarrow> m y = None"
  by (simp add: field_set_def split: option.splits)

lemma field_set_rows: "field_set m y x v = Some m' \<Longrightarrow> (m' y' = None) = (m y' = None)"
  by (auto simp: field_set_def split: option.splits if_splits)

lemma field_get_field_set:
  "field_set m y x v = Some m' \<Longrightarrow>
   field_get m' y' x' = (if y' = y \<and> x' = x then v else field_get m y' x')"
  by (auto simp: field_set_def field_get_def split: option.splits if_splits)

lemma tick_cols_result:
  assumes "nextMap y \<noteq> None"
  shows "\<exists>nm out'. tick_cols game y x nextMap out = Some (nm, out') \<and>
           (\<forall>y'. (nm y' = None) = (nextMap y' = None)) \<and>
           (\<forall>y' x'. field_get nm y' x' =
              (if y' = y \<and> x \<le> x' \<and> x' \<le> width game then nextCellState game x' y
               else field_get nextMap y' x'))"
  using assms
proof (induction game y x nextMap out rule: tick_cols.induct)
  case (1 game y x nextMap out)
  show ?case
  proof (cases "x \<le> width game")
    case False
    then show ?thesis
      by (subst tick_cols.simps) auto
  next
    case True
    from "1.prems" obtain nm where nm: "field_set nextMap y x (nextCellState game x y) = Some nm"
      using field_set_None [of nextMap y x "nextCellState game x y"] by (cases "field_set nextMap y x (nextCellState game x y)") auto
    have rows: "\<And>y'. (nm y' = None) = (nextMap y' = None)"
      using field_set_rows [OF nm] by simp
    then have "nm y \<noteq> None" using "1.prems" by simp
    from "1.IH" [OF True nm this] obtain nm' out' where
      r: "tick_cols game y (x + 1) nm
            (if field_get nm y x \<noteq> field_get (field game) y x
             then out @ [drawCell game x y (field_get nm y x)] else out) = Some (nm', out')"
      and rows': "\<forall>y'. (nm' y' = None) = (nm y' = None)"
      and cells: "\<forall>y' x'. field_get nm' y' x' =
              (if y' = y \<and> x + 1 \<le> x' \<and> x' \<le> width game then nextCellState game x' y
               else field_get nm y' x')"
      by blast
    have "tick_cols game y x nextMap out = Some (nm', out')"
      using True nm r by (subst tick_cols.simps) simp
    moreover have "\<forall>y'. (nm' y' = None) = (nextMap y' = None)"
      using rows rows' by simp
    moreover have "\<forall>y' x'. field_get nm' y' x' =
              (if y' = y \<and> x \<le> x' \<and> x' \<le> width game then nextCellState game x' y
               else field_get nextMap y' x')"
      using cells field_get_field_set [OF nm] True by auto
    ultimately show ?thesis by blast
  qed
qed


lemma tick_cols_out:
  assumes "nextMap y \<noteq> None"
  shows "map_option snd (tick_cols game y x nextMap out) =
         Some (out @ map (\<lambda>x'. drawCell game x' y (nextCellState game x' y))
                       (filter (\<lambda>x'. nextCellState game x' y \<noteq> field_get (field game) y x')
                          [x..width game]))"
  using assms
proof (induction game y x nextMap out rule: tick_cols.induct)
  case (1 game y x nextMap out)
  show ?case
  proof (cases "x \<le> width game")
    case False
    then show ?thesis
      by (subst tick_cols.simps) simp
  next
    case True
    from "1.prems" obtain nm where nm: "field_set nextMap y x (nextCellState game x y) = Some nm"
      using field_set_None [of nextMap y x "nextCellState game x y"]
      by (cases "field_set nextMap y x (nextCellState game x y)") auto
    have "nm y \<noteq> None"
      using field_set_rows [OF nm] "1.prems" by simp
    note ih = "1.IH" [OF True nm this]
    have v: "field_get nm y x = nextCellState game x y"
      by (simp add: field_get_field_set [OF nm])
    have up: "[x..width game] = x # [x + 1..width game]"
      using True by (simp add: upto_rec1)
    show ?thesis
      using True nm ih [unfolded v] by (subst tick_cols.simps) (auto simp: up v)
  qed
qed

lemma tick_rows_result:
  assumes "\<forall>y'. y \<le> y' \<and> y' < height game \<longrightarrow> nextMap y' \<noteq> None"
  shows "\<exists>nm out'. tick_rows game y nextMap out = Some (nm, out') \<and>
           (\<forall>y'. (nm y' = None) = (nextMap y' = None)) \<and>
           (\<forall>y' x'. field_get nm y' x' =
              (if y \<le> y' \<and> y' < height game \<and> 0 \<le> x' \<and> x' \<le> width game
               then nextCellState game x' y' else field_get nextMap y' x')) \<and>
           out' = out @ concat (map (\<lambda>y'. map (\<lambda>x'. drawCell game x' y' (nextCellState game x' y'))
                       (filter (\<lambda>x'. nextCellState game x' y' \<noteq> field_get (field game) y' x')
                          [0..width game])) [y..height game - 1])"
  using assms
proof (induction game y nextMap out rule: tick_rows.induct)
  case (1 game y nextMap out)
  show ?case
  proof (cases "y < height game")
    case False
    then show ?thesis
      by (subst tick_rows.simps) auto
  next
    case True
    let ?row = "\<lambda>y'. map (\<lambda>x'. drawCell game x' y' (nextCellState game x' y'))
                       (filter (\<lambda>x'. nextCellState game x' y' \<noteq> field_get (field game) y' x')
                          [0..width game])"
    have row: "nextMap y \<noteq> None"
      using "1.prems" True by simp
    from tick_cols_result [where nextMap = nextMap and y = y and game = game and x = 0 and out = out, OF row] obtain nm out1 where
      c: "tick_cols game y 0 nextMap out = Some (nm, out1)"
      and crows: "\<forall>y'. (nm y' = None) = (nextMap y' = None)"
      and ccells: "\<forall>y' x'. field_get nm y' x' =
              (if y' = y \<and> 0 \<le> x' \<and> x' \<le> width game then nextCellState game x' y
               else field_get nextMap y' x')"
      by blast
    have out1: "out1 = out @ ?row y"
      using tick_cols_out [where nextMap = nextMap and y = y and game = game and x = 0 and out = out, OF row] c by simp
    have "\<forall>y'. y + 1 \<le> y' \<and> y' < height game \<longrightarrow> nm y' \<noteq> None"
      using "1.prems" crows by simp
    from "1.IH" [OF True c refl this] obtain nm' out' where
      r: "tick_rows game (y + 1) nm out1 = Some (nm', out')"
      and rrows: "\<forall>y'. (nm' y' = None) = (nm y' = None)"
      and rcells: "\<forall>y' x'. field_get nm' y' x' =
              (if y + 1 \<le> y' \<and> y' < height game \<and> 0 \<le> x' \<and> x' \<le> width game
               then nextCellState game x' y' else field_get nm y' x')"
      and rout: "out' = out1 @ concat (map ?row [y + 1..height game - 1])"
      by blast
    have up: "[y..height game - 1] = y # [y + 1..height game - 1]"
      using True by (simp add: upto_rec1)
    have "tick_rows game y nextMap out = Some (nm', out')"
      using True c r by (subst tick_rows.simps) simp
    moreover have "\<forall>y'. (nm' y' = None) = (nextMap y' = None)"
      using crows rrows by simp
    moreover have "\<forall>y' x'. field_get nm' y' x' =
              (if y \<le> y' \<and> y' < height game \<and> 0 \<le> x' \<and> x' \<le> width game
               then nextCellState game x' y' else field_get nextMap y' x')"
      using rcells ccells True by auto
    moreover have "out' = out @ concat (map ?row [y..height game - 1])"
      using rout out1 up by simp
    ultimately show ?thesis by blast
  qed
qed

lemma wrap_mod:
  fixes w x i :: int
  assumes "0 < w" "0 \<le> x" "x < w" "i = -1 \<or> i = 0 \<or> i = 1"
  shows "(if x + i < 0 then w - 1 else if x + i = w then 0 else x + i) = (x + i) mod w"
proof -
  consider "x + i < 0" | "x + i = w" | "0 \<le> x + i \<and> x + i < w"
    using assms by linarith
  then show ?thesis
  proof cases
    case 1
    then have "x + i = -1" using assms by linarith
    then show ?thesis using assms(1) by (simp add: zmod_minus1)
  next
    case 2
    then show ?thesis using assms(1) by simp
  next
    case 3
    then show ?thesis by simp
  qed
qed

lemma nextCellState_total9:
  assumes "0 < width g" "0 < height g" "0 \<le> x" "x < width g" "0 \<le> y" "y < height g"
  shows "nextCellState g x y =
     (let total = spec_neighborCount g x y + uint (field_get (field g) y x)
      in if total = 3 then 1 else if total = 4 then field_get (field g) y x else 0)"
proof -
  have wx: "\<And>i. i = -1 \<or> i = 0 \<or> i = 1 \<Longrightarrow>
      (if x + i < 0 then width g - 1 else if x + i = width g then 0 else x + i) = (x + i) mod width g"
    using wrap_mod [OF assms(1) assms(3) assms(4)] by blast
  have wy: "\<And>j. j = -1 \<or> j = 0 \<or> j = 1 \<Longrightarrow>
      (if y + j < 0 then height g - 1 else if y + j = height g then 0 else y + j) = (y + j) mod height g"
    using wrap_mod [OF assms(2) assms(5) assms(6)] by blast
  have x0: "x mod width g = x" and y0: "y mod height g = y"
    using assms by simp_all
  show ?thesis
    unfolding nextCellState_def spec_neighborCount_def Let_def
    using wx [of "-1"] wx [of 0] wx [of 1] wy [of "-1"] wy [of 0] wy [of 1] x0 y0
    by simp
qed

lemma spec_neighborCount_bounds:
  assumes "binary_cells g"
  shows "0 \<le> spec_neighborCount g x y \<and> spec_neighborCount g x y \<le> 8"
proof -
  have b: "\<And>y' x'. 0 \<le> uint (field_get (field g) y' x') \<and> uint (field_get (field g) y' x') \<le> 1"
  proof -
    fix y' x'
    from assms have "field_get (field g) y' x' = 0 \<or> field_get (field g) y' x' = 1"
      by (simp add: binary_cells_def)
    then show "0 \<le> uint (field_get (field g) y' x') \<and> uint (field_get (field g) y' x') \<le> 1"
      by auto
  qed
  show ?thesis
    unfolding spec_neighborCount_def
    using b [of "(y + -1) mod height g" "(x + -1) mod width g"]
          b [of "(y + 0) mod height g" "(x + -1) mod width g"]
          b [of "(y + 1) mod height g" "(x + -1) mod width g"]
          b [of "(y + -1) mod height g" "(x + 0) mod width g"]
          b [of "(y + 1) mod height g" "(x + 0) mod width g"]
          b [of "(y + -1) mod height g" "(x + 1) mod width g"]
          b [of "(y + 0) mod height g" "(x + 1) mod width g"]
          b [of "(y + 1) mod height g" "(x + 1) mod width g"]
    by simp
qed

lemma conway_equiv:
  assumes "binary_cells g" "3 \<le> width g" "3 \<le> height g"
    "0 \<le> x" "x < width g" "0 \<le> y" "y < height g"
  shows "nextCellState g x y =
     (if conway_rule (field_get (field g) y x = 1) (spec_neighborCount g x y) then 1 else 0)"
proof -
  have t: "nextCellState g x y =
     (let total = spec_neighborCount g x y + uint (field_get (field g) y x)
      in if total = 3 then 1 else if total = 4 then field_get (field g) y x else 0)"
    using assms by (intro nextCellState_total9) auto
  from assms(1) have "field_get (field g) y x = 0 \<or> field_get (field g) y x = 1"
    by (simp add: binary_cells_def)
  then show ?thesis
  proof
    assume "field_get (field g) y x = 0"
    then show ?thesis using t by (simp add: conway_rule_def Let_def)
  next
    assume "field_get (field g) y x = 1"
    then show ?thesis using t by (auto simp: conway_rule_def Let_def)
  qed
qed

lemma tick_result:
  "\<exists>g' out. tick g = Some (g', out) \<and>
     g' = g\<lparr>field := field g', generation := generation g + 1\<rparr> \<and>
     (\<forall>y. (field g' y \<noteq> None) = (0 \<le> y \<and> y < height g)) \<and>
     (\<forall>y x. field_get (field g') y x =
        (if 0 \<le> y \<and> y < height g \<and> 0 \<le> x \<and> x \<le> width g
         then nextCellState g x y else 0)) \<and>
     out = concat (map (\<lambda>y. map (\<lambda>x. drawCell g x y (nextCellState g x y))
                   (filter (\<lambda>x. nextCellState g x y \<noteq> field_get (field g) y x)
                      [0..width g])) [0..height g - 1])"
proof -
  have "\<forall>y'. 0 \<le> y' \<and> y' < height g \<longrightarrow> makeNewMap (width g) (height g) y' \<noteq> None"
    by (simp add: makeNewMap_apply)
  from tick_rows_result [OF this, of "[]"] obtain nm out where
    r: "tick_rows g 0 (makeNewMap (width g) (height g)) [] = Some (nm, out)"
    and rows: "\<forall>y'. (nm y' = None) = (makeNewMap (width g) (height g) y' = None)"
    and cells: "\<forall>y' x'. field_get nm y' x' =
              (if 0 \<le> y' \<and> y' < height g \<and> 0 \<le> x' \<and> x' \<le> width g
               then nextCellState g x' y' else field_get (makeNewMap (width g) (height g)) y' x')"
    and out: "out = [] @ concat (map (\<lambda>y'. map (\<lambda>x'. drawCell g x' y' (nextCellState g x' y'))
                       (filter (\<lambda>x'. nextCellState g x' y' \<noteq> field_get (field g) y' x')
                          [0..width g])) [0..height g - 1])"
    by blast
  have "tick g = Some (g\<lparr>field := nm, generation := generation g + 1\<rparr>, out)"
    by (simp add: tick_def r)
  moreover have "\<forall>y. ((nm y) \<noteq> None) = (0 \<le> y \<and> y < height g)"
    using rows by (simp add: makeNewMap_apply)
  moreover have "\<forall>y x. field_get nm y x =
        (if 0 \<le> y \<and> y < height g \<and> 0 \<le> x \<and> x \<le> width g
         then nextCellState g x y else 0)"
    using cells by (simp add: field_get_makeNewMap)
  ultimately show ?thesis
    using out by simp
qed

lemma reverseCell_result:
  assumes "field g y \<noteq> None"
  shows "\<exists>g'. reverseCell g x y =
            Some (g', [drawCell g x y (field_get (field g) y x XOR 1)]) \<and>
     g' = g\<lparr>field := field g'\<rparr> \<and>
     (\<forall>y'. (field g' y' = None) = (field g y' = None)) \<and>
     (\<forall>y' x'. field_get (field g') y' x' =
        (if y' = y \<and> x' = x then field_get (field g) y x XOR 1 else field_get (field g) y' x'))"
proof -
  from assms obtain f where f: "field_set (field g) y x (field_get (field g) y x XOR 1) = Some f"
    using field_set_None [of "field g" y x "field_get (field g) y x XOR 1"]
    by (cases "field_set (field g) y x (field_get (field g) y x XOR 1)") auto
  show ?thesis
    using field_set_rows [OF f] field_get_field_set [OF f]
    by (simp add: reverseCell_def f)
qed

lemma reverseCell_panic: "field g y = None \<Longrightarrow> reverseCell g x y = None"
  by (simp add: reverseCell_def field_set_def)

lemma resize_cols_result:
  assumes "newField y \<noteq> None"
  shows "\<exists>nf out'. resize_cols game w y x newField out = Some (nf, out') \<and>
           (\<forall>y'. (nf y' = None) = (newField y' = None)) \<and>
           (\<forall>y' x'. field_get nf y' x' =
              (if y' = y \<and> x \<le> x' \<and> x' \<le> w \<and> x' \<le> max x (width game)
               then field_get (field game) y x' else field_get newField y' x'))"
  using assms
proof (induction game w y x newField out rule: resize_cols.induct)
  case (1 game w y x newField out)
  show ?case
  proof (cases "x \<le> w")
    case False
    then show ?thesis
      by (subst resize_cols.simps) auto
  next
    case True
    from "1.prems" obtain nf where nf: "field_set newField y x (field_get (field game) y x) = Some nf"
      using field_set_None [of newField y x "field_get (field game) y x"]
      by (cases "field_set newField y x (field_get (field game) y x)") auto
    have rows: "\<And>y'. (nf y' = None) = (newField y' = None)"
      using field_set_rows [OF nf] by simp
    define out1 where "out1 = (if field_get nf y x = 1
                          then out @ [drawCell game x y (field_get nf y x)] else out)"
    show ?thesis
    proof (cases "x \<ge> width game")
      case True
      have "resize_cols game w y x newField out = Some (nf, out1)"
        using \<open>x \<le> w\<close> nf True by (subst resize_cols.simps) (simp add: out1_def)
      moreover have "\<forall>y' x'. field_get nf y' x' =
              (if y' = y \<and> x \<le> x' \<and> x' \<le> w \<and> x' \<le> max x (width game)
               then field_get (field game) y x' else field_get newField y' x')"
        using field_get_field_set [OF nf] True \<open>x \<le> w\<close> by auto
      ultimately show ?thesis using rows by blast
    next
      case False
      have "nf y \<noteq> None" using rows "1.prems" by simp
      from "1.IH" [OF \<open>x \<le> w\<close> nf out1_def False this]
      obtain nf' out' where
        r: "resize_cols game w y (x + 1) nf out1 = Some (nf', out')"
        and rows': "\<forall>y'. (nf' y' = None) = (nf y' = None)"
        and cells: "\<forall>y' x'. field_get nf' y' x' =
              (if y' = y \<and> x + 1 \<le> x' \<and> x' \<le> w \<and> x' \<le> max (x + 1) (width game)
               then field_get (field game) y x' else field_get nf y' x')"
        by blast
      have "resize_cols game w y x newField out = Some (nf', out')"
        using \<open>x \<le> w\<close> nf False r by (subst resize_cols.simps) (simp add: out1_def)
      moreover have "\<forall>y'. (nf' y' = None) = (newField y' = None)"
        using rows rows' by simp
      moreover have "\<forall>y' x'. field_get nf' y' x' =
              (if y' = y \<and> x \<le> x' \<and> x' \<le> w \<and> x' \<le> max x (width game)
               then field_get (field game) y x' else field_get newField y' x')"
        using cells field_get_field_set [OF nf] False \<open>x \<le> w\<close> by auto
      ultimately show ?thesis by blast
    qed
  qed
qed


lemma resize_rows_result:
  assumes "\<forall>y'. y \<le> y' \<and> y' < h \<longrightarrow> newField y' \<noteq> None"
  shows "\<exists>nf out'. resize_rows game w h y newField out = Some (nf, out') \<and>
           (\<forall>y'. (nf y' = None) = (newField y' = None)) \<and>
           (\<forall>y' x'. field_get nf y' x' =
              (if y \<le> y' \<and> y' < h \<and> y' < height game \<and>
                  0 \<le> x' \<and> x' \<le> w \<and> x' \<le> max 0 (width game)
               then field_get (field game) y' x' else field_get newField y' x'))"
  using assms
proof (induction game w h y newField out rule: resize_rows.induct)
  case (1 game w h y newField out)
  show ?case
  proof (cases "y < h \<and> y < height game")
    case False
    then show ?thesis
      by (subst resize_rows.simps) auto
  next
    case True
    then have yh: "y < h" and yg: "\<not> y \<ge> height game" by simp_all
    have row: "newField y \<noteq> None"
      using "1.prems" yh by simp
    from resize_cols_result [where newField = newField and y = y and game = game and w = w
        and x = 0 and out = out, OF row]
    obtain nf out1 where
      c: "resize_cols game w y 0 newField out = Some (nf, out1)"
      and crows: "\<forall>y'. (nf y' = None) = (newField y' = None)"
      and ccells: "\<forall>y' x'. field_get nf y' x' =
              (if y' = y \<and> 0 \<le> x' \<and> x' \<le> w \<and> x' \<le> max 0 (width game)
               then field_get (field game) y x' else field_get newField y' x')"
      by blast
    have "\<forall>y'. y + 1 \<le> y' \<and> y' < h \<longrightarrow> nf y' \<noteq> None"
      using "1.prems" crows by simp
    from "1.IH" [OF yh yg c refl this] obtain nf' out' where
      r: "resize_rows game w h (y + 1) nf out1 = Some (nf', out')"
      and rrows: "\<forall>y'. (nf' y' = None) = (nf y' = None)"
      and rcells: "\<forall>y' x'. field_get nf' y' x' =
              (if y + 1 \<le> y' \<and> y' < h \<and> y' < height game \<and>
                  0 \<le> x' \<and> x' \<le> w \<and> x' \<le> max 0 (width game)
               then field_get (field game) y' x' else field_get nf y' x')"
      by blast
    have "resize_rows game w h y newField out = Some (nf', out')"
      using yh yg c r by (subst resize_rows.simps) simp
    moreover have "\<forall>y'. (nf' y' = None) = (newField y' = None)"
      using crows rrows by simp
    moreover have "\<forall>y' x'. field_get nf' y' x' =
              (if y \<le> y' \<and> y' < h \<and> y' < height game \<and>
                  0 \<le> x' \<and> x' \<le> w \<and> x' \<le> max 0 (width game)
               then field_get (field game) y' x' else field_get newField y' x')"
      using rcells ccells yh yg by auto
    ultimately show ?thesis by blast
  qed
qed

lemma resize_result:
  "\<exists>g' out. resize g w0 h = Some (g', out) \<and>
     g' = g\<lparr>evolution := False, width := w0 - stateWidth g, height := h, field := field g'\<rparr> \<and>
     (\<forall>y. (field g' y \<noteq> None) = (0 \<le> y \<and> y < h)) \<and>
     (\<forall>y x. field_get (field g') y x =
        (if 0 \<le> y \<and> y < h \<and> y < height g \<and>
            0 \<le> x \<and> x \<le> w0 - stateWidth g \<and> x \<le> max 0 (width g)
         then field_get (field g) y x else 0))"
proof -
  let ?w = "w0 - stateWidth g"
  have "\<forall>y'. 0 \<le> y' \<and> y' < h \<longrightarrow> makeNewMap ?w h y' \<noteq> None"
    by (simp add: makeNewMap_apply)
  from resize_rows_result [OF this, of g ?w "[]"] obtain nf out where
    r: "resize_rows g ?w h 0 (makeNewMap ?w h) [] = Some (nf, out)"
    and rows: "\<forall>y'. (nf y' = None) = (makeNewMap ?w h y' = None)"
    and cells: "\<forall>y' x'. field_get nf y' x' =
              (if 0 \<le> y' \<and> y' < h \<and> y' < height g \<and>
                  0 \<le> x' \<and> x' \<le> ?w \<and> x' \<le> max 0 (width g)
               then field_get (field g) y' x' else field_get (makeNewMap ?w h) y' x')"
    by blast
  have "resize g w0 h =
      Some (g\<lparr>evolution := False, width := ?w, height := h, field := nf\<rparr>, out)"
    by (simp add: resize_def r)
  moreover have "\<forall>y. (nf y \<noteq> None) = (0 \<le> y \<and> y < h)"
    using rows by (simp add: makeNewMap_apply)
  moreover have "\<forall>y x. field_get nf y x =
        (if 0 \<le> y \<and> y < h \<and> y < height g \<and> 0 \<le> x \<and> x \<le> ?w \<and> x \<le> max 0 (width g)
         then field_get (field g) y x else 0)"
    using cells by (simp add: field_get_makeNewMap)
  ultimately show ?thesis
    by simp
qed

lemma nextCellState_binary:
  assumes "binary_cells g"
  shows "nextCellState g x y = 0 \<or> nextCellState g x y = 1"
  using assms by (auto simp: nextCellState_def binary_cells_def Let_def)

lemma rows_made_NewGame: "rows_made (NewGame sw sh)"
  by (simp add: rows_made_def NewGame_def Let_def makeNewMap_apply)

lemma binary_cells_NewGame: "binary_cells (NewGame sw sh)"
  by (simp add: binary_cells_def NewGame_def Let_def field_get_makeNewMap)

lemma exec_invariants:
  assumes "exec g c = Some g'" "rows_made g" "binary_cells g"
  shows "rows_made g' \<and> binary_cells g'"
proof (cases c)
  case Tick
  from tick_result [of g] obtain t out where
    t: "tick g = Some (t, out)"
    and eq: "t = g\<lparr>field := field t, generation := generation g + 1\<rparr>"
    and rows: "\<forall>y. (field t y \<noteq> None) = (0 \<le> y \<and> y < height g)"
    and cells: "\<forall>y x. field_get (field t) y x =
        (if 0 \<le> y \<and> y < height g \<and> 0 \<le> x \<and> x \<le> width g
         then nextCellState g x y else 0)"
    by blast
  have g': "g' = t" using assms(1) Tick t by simp
  have "height t = height g" by (subst eq) simp
  then have "rows_made t" using rows by (simp add: rows_made_def)
  moreover have "binary_cells t"
    using cells nextCellState_binary [OF assms(3)] by (simp add: binary_cells_def)
  ultimately show ?thesis using g' by simp
next
  case (ReverseCell x y)
  with assms(1) have "field g y \<noteq> None"
    using reverseCell_panic [of g y x] by (cases "field g y") auto
  from reverseCell_result [OF this, of x] obtain t where
    t: "reverseCell g x y = Some (t, [drawCell g x y (field_get (field g) y x XOR 1)])"
    and eq: "t = g\<lparr>field := field t\<rparr>"
    and rows: "\<forall>y'. (field t y' = None) = (field g y' = None)"
    and cells: "\<forall>y' x'. field_get (field t) y' x' =
        (if y' = y \<and> x' = x then field_get (field g) y x XOR 1 else field_get (field g) y' x')"
    by blast
  have g': "g' = t" using assms(1) ReverseCell t by simp
  have "height t = height g" by (subst eq) simp
  then have "rows_made t" using rows assms(2) by (simp add: rows_made_def)
  moreover have "binary_cells t"
    unfolding binary_cells_def
  proof (intro allI)
    fix x' y'
    from assms(3) have a: "field_get (field g) y x = 0 \<or> field_get (field g) y x = 1"
      and b: "field_get (field g) y' x' = 0 \<or> field_get (field g) y' x' = 1"
      by (simp_all add: binary_cells_def)
    from a have "field_get (field g) y x XOR 1 = 0 \<or> field_get (field g) y x XOR 1 = 1"
      by auto
    then show "field_get (field t) y' x' = 0 \<or> field_get (field t) y' x' = 1"
      using b cells by auto
  qed
  ultimately show ?thesis using g' by simp
next
  case (Resize w h)
  from resize_result [of g w h] obtain t out where
    t: "resize g w h = Some (t, out)"
    and eq: "t = g\<lparr>evolution := False, width := w - stateWidth g, height := h, field := field t\<rparr>"
    and rows: "\<forall>y. (field t y \<noteq> None) = (0 \<le> y \<and> y < h)"
    and cells: "\<forall>y x. field_get (field t) y x =
        (if 0 \<le> y \<and> y < h \<and> y < height g \<and>
            0 \<le> x \<and> x \<le> w - stateWidth g \<and> x \<le> max 0 (width g)
         then field_get (field g) y x else 0)"
    by blast
  have g': "g' = t" using assms(1) Resize t by simp
  have "height t = h" by (subst eq) simp
  then have "rows_made t" using rows by (simp add: rows_made_def)
  moreover have "binary_cells t"
    using cells assms(3) by (simp add: binary_cells_def)
  ultimately show ?thesis using g' by simp
next
  case IncreaseDelay
  with assms(1) have "g' = increaseDelay g" by simp
  then show ?thesis using assms(2,3)
    by (simp add: increaseDelay_def rows_made_def binary_cells_def)
next
  case DecreaseDelay
  with assms(1) have "g' = decreaseDelay g" by simp
  then show ?thesis using assms(2,3)
    by (simp add: decreaseDelay_def Let_def rows_made_def binary_cells_def)
next
  case SwitchMode
  with assms(1) have "g' = switchMode g" by simp
  then show ?thesis using assms(2,3)
    by (simp add: switchMode_def rows_made_def binary_cells_def)
qed

lemma run_invariants:
  "run g cs = Some g' \<Longrightarrow> rows_made g \<Longrightarrow> binary_cells g \<Longrightarrow> rows_made g' \<and> binary_cells g'"
proof (induction cs arbitrary: g)
  case Nil
  then show ?case by simp
next
  case (Cons c cs)
  from Cons.prems(1) obtain g1 where e: "exec g c = Some g1" and r: "run g1 cs = Some g'"
    by (auto split: option.splits)
  from exec_invariants [OF e Cons.prems(2) Cons.prems(3)] Cons.IH [OF r]
  show ?case by simp
qed

lemma rows_made_last_column_game: "rows_made last_column_game"
  by (auto simp: rows_made_def last_column_game_def)

lemma binary_cells_last_column_game: "binary_cells last_column_game"
  by (simp add: binary_cells_def last_column_game_def field_get_def)

text \<open>
  What \<^verbatim>\<open>resize\<close> gives a cell of the new grid when the old width is not negative:
  the old cell inside the old grid and a dead cell outside it, except for the column whose
  index is the old width, which is copied from the old field as well. The two examples
  of a 4 by 4 grid with one live cell at \<open>(3, 3)\<close> come out as expected.
\<close>

lemma resize_overlap:
  assumes "resize g w0 h = Some (g', out)" "0 \<le> x" "x < width g'" "0 \<le> y" "y < height g'"
    "0 \<le> width g"
  shows "x \<noteq> width g \<Longrightarrow>
           field_get (field g') y x =
             (if x < width g \<and> y < height g then field_get (field g) y x else 0)"
    and "x = width g \<Longrightarrow>
           field_get (field g') y x = (if y < height g then field_get (field g) y x else 0)"
proof -
  from resize_result [of g w0 h] assms(1) have
    eq: "g' = g\<lparr>evolution := False, width := w0 - stateWidth g, height := h, field := field g'\<rparr>"
    and cells: "\<forall>y x. field_get (field g') y x =
        (if 0 \<le> y \<and> y < h \<and> y < height g \<and>
            0 \<le> x \<and> x \<le> w0 - stateWidth g \<and> x \<le> max 0 (width g)
         then field_get (field g) y x else 0)"
    by auto
  have w: "width g' = w0 - stateWidth g" and hh: "height g' = h"
    by (subst eq, simp)+
  show "x \<noteq> width g \<Longrightarrow>
           field_get (field g') y x =
             (if x < width g \<and> y < height g then field_get (field g) y x else 0)"
    using cells assms(2-6) w hh by auto
  show "x = width g \<Longrightarrow>
           field_get (field g') y x = (if y < height g then field_get (field g) y x else 0)"
    using cells assms(2-6) w hh by auto
qed

lemma resize_corner_game:
  "map_option (\<lambda>(g, out). (width g, height g,
       [[field_get (field g) y x. x \<leftarrow> [0, 1, 2, 3, 4, 5]]. y \<leftarrow> [0, 1, 2, 3, 4, 5]], out))
     (resize corner_game 16 6) =
     Some (6, 6, [[0, 0, 0, 0, 0, 0], [0, 0, 0, 0, 0, 0], [0, 0, 0, 0, 0, 0],
                  [0, 0, 0, 1, 0, 0], [0, 0, 0, 0, 0, 0], [0, 0, 0, 0, 0, 0]],
           [SetContent 13 3 (CHR ''X'')])"
  "map_option (\<lambda>(g, out). (width g, height g,
       [[field_get (field g) y x. x \<leftarrow> [0, 1]]. y \<leftarrow> [0, 1]], out))
     (resize corner_game 12 2) = Some (2, 2, [[0, 0], [0, 0]], [])"
  by (simp_all add: corner_game_def resize_def drawCell_def
      makeNewMap_def makeNewMap_loop.simps field_set_def field_get_def
      resize_rows.simps resize_cols.simps)

section \<open>Sequences of calls, the generation and the delay\<close>

lemma run_append:
  "run g (cs1 @ cs2) = (case run g cs1 of None \<Rightarrow> None | Some g1 \<Rightarrow> run g1 cs2)"
  by (induction cs1 arbitrary: g) (auto split: option.splits)

lemma exec_total:
  "\<exists>g'. exec g Tick = Some g'" "\<exists>g'. exec g (Resize w h) = Some g'"
  using tick_result [of g] resize_result [of g w h] by auto

text \<open>The signed value of a 64-bit counter after \<open>n\<close> increments, while it stays in range.\<close>

lemma sint_add_of_nat:
  fixes w :: "64 word"
  assumes "sint w + int n < 2 ^ 63"
  shows "sint (w + of_nat n) = sint w + int n"
proof -
  have lo: "- (2 ^ 63) \<le> sint w + int n"
    using sint_ge [of w] by simp
  have "w + of_nat n = word_of_int (sint w + int n)"
    by simp
  then have "sint (w + of_nat n) = signed_take_bit 63 (sint w + int n)"
    by (simp only: sint_sbintrunc') simp
  also have "\<dots> = sint w + int n"
    using lo assms by (intro signed_take_bit_int_eq_self) simp_all
  finally show ?thesis .
qed

lemma exec_generation:
  assumes "exec g c = Some g'"
  shows "generation g' = generation g + of_nat (count_list [c] Tick)"
proof (cases c)
  case Tick
  from tick_result [of g] obtain t out where
    t: "tick g = Some (t, out)"
    and eq: "t = g\<lparr>field := field t, generation := generation g + 1\<rparr>"
    by blast
  have "generation t = generation g + 1" by (subst eq) simp
  then show ?thesis using assms Tick t by simp
next
  case (ReverseCell x y)
  then show ?thesis using assms
    by (auto simp: reverseCell_def split: option.splits)
next
  case (Resize w h)
  then show ?thesis using assms
    by (auto simp: resize_def Let_def split: option.splits)
next
  case IncreaseDelay
  then show ?thesis using assms by (auto simp: increaseDelay_def)
next
  case DecreaseDelay
  then show ?thesis using assms by (auto simp: decreaseDelay_def Let_def)
next
  case SwitchMode
  then show ?thesis using assms by (auto simp: switchMode_def)
qed

lemma run_generation:
  "run g cs = Some g' \<Longrightarrow> generation g' = generation g + of_nat (count_list cs Tick)"
proof (induction cs arbitrary: g)
  case Nil
  then show ?case by simp
next
  case (Cons c cs)
  from Cons.prems obtain g1 where e: "exec g c = Some g1" and r: "run g1 cs = Some g'"
    by (auto split: option.splits)
  from exec_generation [OF e] Cons.IH [OF r] show ?case
    by simp
qed

lemma run_ticks_total: "\<exists>g'. run g (replicate n Tick) = Some g'"
proof (induction n arbitrary: g)
  case 0
  then show ?case by simp
next
  case (Suc n)
  from exec_total(1) [of g] obtain g1 where e: "exec g Tick = Some g1" by blast
  from Suc [of g1] obtain g' where "run g1 (replicate n Tick) = Some g'" by blast
  then have "run g (replicate (Suc n) Tick) = Some g'"
    using e by (simp del: exec.simps)
  then show ?case by blast
qed

lemma count_replicate_Tick: "count_list (replicate n Tick) Tick = n"
  by (induction n) simp_all

text \<open>The main loop's timer advances the generation only while the game is playing.\<close>

lemma timerExpired_generation:
  "\<exists>g' out. timerExpired g = Some (g', out) \<and>
     generation g' = generation g + (if evolution g then 1 else 0)"
proof (cases "evolution g")
  case True
  from tick_result [of g] obtain t out where
    t: "tick g = Some (t, out)"
    and eq: "t = g\<lparr>field := field t, generation := generation g + 1\<rparr>"
    by blast
  have "generation t = generation g + 1" by (subst eq) simp
  then show ?thesis using True t by (simp add: timerExpired_def)
next
  case False
  then show ?thesis by (simp add: timerExpired_def)
qed

lemma run_demo:
  "map_option (\<lambda>g. sint (generation g))
     (run (NewGame 13 3) (last_column_calls @ [Tick, Resize 12 2, ReverseCell 0 0, Tick])) = Some 2"
  by (simp add: last_column_calls_def NewGame_def reverseCell_def resize_def tick_def
      makeNewMap_def makeNewMap_loop.simps field_set_def field_get_def
      tick_rows.simps tick_cols.simps resize_rows.simps resize_cols.simps nextCellState_def)

lemma sint_add_50:
  fixes d :: "64 word"
  assumes "sint d + 50 < 2 ^ 63"
  shows "sint (d + 50) = sint d + 50"
proof -
  have lo: "- (2 ^ 63) \<le> sint d + 50"
    using sint_ge [of d] by simp
  have "sint (d + 50) = signed_take_bit 63 (sint d + sint (50 :: 64 word))"
    by (simp add: sint_word_ariths)
  also have "\<dots> = signed_take_bit 63 (sint d + 50)"
    by simp
  also have "\<dots> = sint d + 50"
    using lo assms by (intro signed_take_bit_int_eq_self) simp_all
  finally show ?thesis .
qed

lemma sint_sub_50:
  fixes d :: "64 word"
  assumes "- (2 ^ 63) \<le> sint d - 50"
  shows "sint (d - 50) = sint d - 50"
proof -
  have hi: "sint d - 50 < 2 ^ 63"
    using sint_lt [of d] by simp
  have "sint (d - 50) = signed_take_bit 63 (sint d - sint (50 :: 64 word))"
    by (simp add: sint_word_ariths)
  also have "\<dots> = signed_take_bit 63 (sint d - 50)"
    by simp
  also have "\<dots> = sint d - 50"
    using hi assms by (intro signed_take_bit_int_eq_self) simp_all
  finally show ?thesis .
qed

lemma decreaseDelay_nonneg: "0 \<le> sint (delay (decreaseDelay g))"
  by (simp add: decreaseDelay_def Let_def word_sless_alt)

lemma decreaseDelay_value:
  assumes "0 \<le> sint (delay g)"
  shows "sint (delay (decreaseDelay g)) = max 0 (sint (delay g) - 50)"
proof -
  have "sint (delay g - 50) = sint (delay g) - 50"
    using assms by (intro sint_sub_50) simp
  then show ?thesis
    by (simp add: decreaseDelay_def Let_def word_sless_alt)
qed

lemma increaseDelay_value:
  assumes "sint (delay g) + 50 < 2 ^ 63"
  shows "sint (delay (increaseDelay g)) = sint (delay g) + 50"
  using sint_add_50 [OF assms] by (simp add: increaseDelay_def)

lemma run_speed:
  assumes "set cs \<subseteq> {IncreaseDelay, DecreaseDelay}" "0 \<le> sint (delay g)"
    "sint (delay g) + 50 * int (count_list cs IncreaseDelay) < 2 ^ 63"
  shows "\<exists>g'. run g cs = Some g' \<and>
           sint (delay g') = foldl spec_delay (sint (delay g)) cs \<and>
           0 \<le> sint (delay g') \<and> evolution g' = evolution g"
  using assms
proof (induction cs arbitrary: g)
  case Nil
  then show ?case by simp
next
  case (Cons c cs)
  from Cons.prems(1) have c: "c = IncreaseDelay \<or> c = DecreaseDelay"
    and rest: "set cs \<subseteq> {IncreaseDelay, DecreaseDelay}"
    by auto
  from c show ?case
  proof
    assume up: "c = IncreaseDelay"
    let ?g1 = "increaseDelay g"
    have v: "sint (delay ?g1) = sint (delay g) + 50"
      using Cons.prems(3) by (intro increaseDelay_value) (simp add: up)
    have "0 \<le> sint (delay ?g1)" using v Cons.prems(2) by simp
    moreover have "sint (delay ?g1) + 50 * int (count_list cs IncreaseDelay) < 2 ^ 63"
      using v Cons.prems(3) by (simp add: up)
    ultimately obtain g' where
      "run ?g1 cs = Some g'" "sint (delay g') = foldl spec_delay (sint (delay ?g1)) cs"
      "0 \<le> sint (delay g')" "evolution g' = evolution ?g1"
      using Cons.IH [OF rest] by blast
    then show ?thesis
      using v by (simp add: up increaseDelay_def)
  next
    assume down: "c = DecreaseDelay"
    let ?g1 = "decreaseDelay g"
    have v: "sint (delay ?g1) = max 0 (sint (delay g) - 50)"
      using Cons.prems(2) by (rule decreaseDelay_value)
    have "0 \<le> sint (delay ?g1)" by (rule decreaseDelay_nonneg)
    moreover have "sint (delay ?g1) + 50 * int (count_list cs IncreaseDelay) < 2 ^ 63"
      using v Cons.prems(2,3) by (simp add: down)
    ultimately obtain g' where
      "run ?g1 cs = Some g'" "sint (delay g') = foldl spec_delay (sint (delay ?g1)) cs"
      "0 \<le> sint (delay g')" "evolution g' = evolution ?g1"
      using Cons.IH [OF rest] by blast
    then show ?thesis
      using v by (simp add: down decreaseDelay_def Let_def)
  qed
qed

section \<open>The cell rule\<close>

text \<open>
  C1, as the specification states it, fails. In the grid whose last column is alive, the
  live cell \<open>(2, 1)\<close> has two live neighbours among the eight around it, so a rule
  on the count of the eight neighbours makes it dead; \<^verbatim>\<open>nextCellState\<close> makes it
  alive, because its loops also visit the offset \<open>(0, 0)\<close> and add the cell itself.
\<close>

theorem C1_counterexample:
  "0 < width last_column_game \<and> 0 < height last_column_game \<and>
   spec_neighborCount last_column_game 2 1 = 2 \<and>
   spec_nextState last_column_game 2 1 = 0 \<and>
   nextCellState last_column_game 2 1 = 1 \<and>
   nextCellState last_column_game 2 1 \<noteq> spec_nextState last_column_game 2 1"
  by (simp add: last_column_game_def spec_nextState_def spec_neighborCount_def
      nextCellState_def field_get_def)

text \<open>
  C1, amended: for every grid of positive width and height and every coordinate in range,
  \<^verbatim>\<open>nextCellState\<close> is computed from the sum of the states of the eight toroidal
  neighbours of the cell plus the state of the cell itself (the nine cells of the wrapped
  3 by 3 block, a total between 0 and 9 when the cells are binary): a total of exactly 3
  makes the cell alive, a total of exactly 4 leaves its state as it is, and any other
  total makes it dead.
\<close>

theorem C1_nextCellState_counts_the_cell:
  assumes "0 < width g" "0 < height g" "0 \<le> x" "x < width g" "0 \<le> y" "y < height g"
  shows "nextCellState g x y =
     (let total = spec_neighborCount g x y + uint (field_get (field g) y x)
      in if total = 3 then 1 else if total = 4 then field_get (field g) y x else 0) \<and>
     (binary_cells g \<longrightarrow>
        0 \<le> spec_neighborCount g x y + uint (field_get (field g) y x) \<and>
        spec_neighborCount g x y + uint (field_get (field g) y x) \<le> 9)"
proof
  show "nextCellState g x y =
     (let total = spec_neighborCount g x y + uint (field_get (field g) y x)
      in if total = 3 then 1 else if total = 4 then field_get (field g) y x else 0)"
    using assms by (rule nextCellState_total9)
next
  show "binary_cells g \<longrightarrow>
        0 \<le> spec_neighborCount g x y + uint (field_get (field g) y x) \<and>
        spec_neighborCount g x y + uint (field_get (field g) y x) \<le> 9"
  proof
    assume b: "binary_cells g"
    then have "field_get (field g) y x = 0 \<or> field_get (field g) y x = 1"
      by (simp add: binary_cells_def)
    then have "0 \<le> uint (field_get (field g) y x) \<and> uint (field_get (field g) y x) \<le> 1"
      by auto
    with spec_neighborCount_bounds [OF b, of x y]
    show "0 \<le> spec_neighborCount g x y + uint (field_get (field g) y x) \<and>
        spec_neighborCount g x y + uint (field_get (field g) y x) \<le> 9"
      by linarith
  qed
qed

theorem C1_witness:
  "nextCellState last_column_game 2 1 = 1 \<and>
   spec_neighborCount last_column_game 2 1 + uint (field_get (field last_column_game) 1 2) = 3 \<and>
   binary_cells last_column_game"
  using C1_nextCellState_counts_the_cell [of last_column_game 2 1] binary_cells_last_column_game
  by (simp add: last_column_game_def spec_neighborCount_def field_get_def)

section \<open>One generation step\<close>

text \<open>
  C2: one call of \<^verbatim>\<open>tick\<close> is to repaint exactly the coordinates in range whose
  value differs between the old and the new grid. The inner loop of \<^verbatim>\<open>tick\<close> runs
  to \<open>x = width\<close> inclusive, one column too far. On the 3 by 3 grid whose last column is
  alive, reached from a new game by three clicks, the tick repaints the columns 0 and 1
  of every row (screen columns 10 and 11), which did change, and also the grid column 3
  (screen column 13), which is not a column of the grid.
\<close>

theorem C2_tick_repaints_column_width:
  "map_option (\<lambda>g. (width g, height g)) (run (NewGame 13 3) last_column_calls) = Some (3, 3) \<and>
   map_option snd (Option.bind (run (NewGame 13 3) last_column_calls) tick) =
     Some [SetContent 10 0 (CHR ''X''), SetContent 11 0 (CHR ''X''), SetContent 13 0 (CHR ''X''),
           SetContent 10 1 (CHR ''X''), SetContent 11 1 (CHR ''X''), SetContent 13 1 (CHR ''X''),
           SetContent 10 2 (CHR ''X''), SetContent 11 2 (CHR ''X''), SetContent 13 2 (CHR ''X'')]"
  by (simp add: last_column_calls_def NewGame_def reverseCell_def tick_def
      makeNewMap_def makeNewMap_loop.simps field_set_def field_get_def
      tick_rows.simps tick_cols.simps nextCellState_def drawCell_def)

text \<open>
  C3: no operation is to leave a state at a coordinate out of range. After the tick of
  the game above, row 1 of the new field has an entry for column 3, the width, and the
  entry is alive. \<^verbatim>\<open>resize\<close> has the same slip (its inner loop runs to the new
  width inclusive and tests the old width only after the copy): shrinking that game to
  2 by 2 leaves a live entry at column 2.
\<close>

theorem C3_tick_writes_column_width:
  "map_option (\<lambda>g. (width g, height g, map_option (\<lambda>r. r 3) (field g 1), field_get (field g) 1 3))
     (run (NewGame 13 3) (last_column_calls @ [Tick])) = Some (3, 3, Some (Some 1), 1) \<and>
   map_option (\<lambda>g. (width g, height g, map_option (\<lambda>r. r 2) (field g 1), field_get (field g) 1 2))
     (run (NewGame 13 3) (last_column_calls @ [Resize 12 2])) = Some (2, 2, Some (Some 1), 1)"
  by (simp add: last_column_calls_def NewGame_def reverseCell_def tick_def resize_def
      makeNewMap_def makeNewMap_loop.simps field_set_def field_get_def
      tick_rows.simps tick_cols.simps resize_rows.simps resize_cols.simps nextCellState_def)

text \<open>
  C4: \<^verbatim>\<open>resize\<close> is to keep the cells in range of both sizes and make every other
  cell of the new grid dead. A 4 by 4 game with one live cell at \<open>(2, 1)\<close>, shrunk to
  2 by 2, shows four dead cells, but the copy loop also took column 2 along; grown back
  to 4 by 4, the cell \<open>(2, 1)\<close>, which is outside the 2 by 2 grid it was resized from,
  is alive. In the same way the column that \<^verbatim>\<open>tick\<close> computes past the width comes
  alive in a grid grown from 3 by 3 to 6 by 6.
\<close>

theorem C4_resize_revives_column_width:
  "map_option (\<lambda>g. (width g, height g, [field_get (field g) y x. y \<leftarrow> [0, 1], x \<leftarrow> [0, 1]]))
     (run (NewGame 14 4) [ReverseCell 2 1, Resize 12 2]) = Some (2, 2, [0, 0, 0, 0]) \<and>
   map_option (\<lambda>g. (width g, height g, field_get (field g) 1 2))
     (run (NewGame 14 4) [ReverseCell 2 1, Resize 12 2, Resize 14 4]) = Some (4, 4, 1) \<and>
   map_option (\<lambda>g. (width g, height g, field_get (field g) 1 3))
     (run (NewGame 13 3) (last_column_calls @ [Tick, Resize 16 6])) = Some (6, 6, 1)"
  by (simp add: last_column_calls_def NewGame_def reverseCell_def tick_def resize_def
      makeNewMap_def makeNewMap_loop.simps field_set_def field_get_def
      tick_rows.simps tick_cols.simps resize_rows.simps resize_cols.simps nextCellState_def)

section \<open>Toggling a cell\<close>

text \<open>
  C5: in every game whose field has its rows and for every coordinate \<open>(x, y)\<close> in
  range, two calls of \<^verbatim>\<open>reverseCell\<close> at \<open>(x, y)\<close> in a row both succeed, the first
  flips the cell and draws the flipped state, the second draws the original state again,
  and after both every cell of the grid reads as before and no other part of the game
  has changed.
\<close>

theorem C5_toggle_twice_restores:
  assumes "rows_made g" "0 \<le> x" "x < width g" "0 \<le> y" "y < height g"
  shows "\<exists>g1 g2. reverseCell g x y = Some (g1, [drawCell g x y (field_get (field g) y x XOR 1)]) \<and>
           reverseCell g1 x y = Some (g2, [drawCell g x y (field_get (field g) y x)]) \<and>
           field_get (field g1) y x = field_get (field g) y x XOR 1 \<and>
           field_get (field g2) y x = field_get (field g) y x \<and>
           (\<forall>x' y'. field_get (field g2) y' x' = field_get (field g) y' x') \<and>
           g2\<lparr>field := field g\<rparr> = g \<and> rows_made g2"
proof -
  have row: "field g y \<noteq> None"
    using assms by (simp add: rows_made_def)
  from reverseCell_result [OF row, of x] obtain g1 where
    r1: "reverseCell g x y = Some (g1, [drawCell g x y (field_get (field g) y x XOR 1)])"
    and eq1: "g1 = g\<lparr>field := field g1\<rparr>"
    and rows1: "\<forall>y'. (field g1 y' = None) = (field g y' = None)"
    and cells1: "\<forall>y' x'. field_get (field g1) y' x' =
        (if y' = y \<and> x' = x then field_get (field g) y x XOR 1 else field_get (field g) y' x')"
    by blast
  have row1: "field g1 y \<noteq> None"
    using rows1 row by simp
  from reverseCell_result [OF row1, of x] obtain g2 where
    r2: "reverseCell g1 x y = Some (g2, [drawCell g1 x y (field_get (field g1) y x XOR 1)])"
    and eq2: "g2 = g1\<lparr>field := field g2\<rparr>"
    and rows2: "\<forall>y'. (field g2 y' = None) = (field g1 y' = None)"
    and cells2: "\<forall>y' x'. field_get (field g2) y' x' =
        (if y' = y \<and> x' = x then field_get (field g1) y x XOR 1 else field_get (field g1) y' x')"
    by blast
  have c1: "field_get (field g1) y x = field_get (field g) y x XOR 1"
    using cells1 by simp
  have twice: "(field_get (field g) y x XOR 1) XOR 1 = field_get (field g) y x"
    by (simp add: xor.assoc)
  have sw: "stateWidth g1 = stateWidth g"
    by (subst eq1) simp
  have d2: "drawCell g1 x y (field_get (field g1) y x XOR 1) = drawCell g x y (field_get (field g) y x)"
    by (simp add: drawCell_def sw c1 twice)
  have same: "\<forall>x' y'. field_get (field g2) y' x' = field_get (field g) y' x'"
    using cells2 cells1 twice by simp
  have eq: "g2 = g\<lparr>field := field g2\<rparr>"
    by (subst eq2, subst eq1) simp
  have rec: "g2\<lparr>field := field g\<rparr> = g"
    by (subst eq) simp
  have "height g2 = height g"
    by (subst eq) simp
  then have rm: "rows_made g2"
    using assms(1) rows1 rows2 by (simp add: rows_made_def)
  have r2': "reverseCell g1 x y = Some (g2, [drawCell g x y (field_get (field g) y x)])"
    using r2 by (simp only: d2)
  have c2: "field_get (field g2) y x = field_get (field g) y x"
    using same by simp
  from r1 r2' c1 c2 same rec rm show ?thesis
    by blast
qed

theorem C5_witness:
  "rows_made last_column_game \<and>
   (\<exists>g1 g2. reverseCell last_column_game 2 1 = Some (g1, [SetContent 12 1 (CHR '' '')]) \<and>
       reverseCell g1 2 1 = Some (g2, [SetContent 12 1 (CHR ''X'')]) \<and>
       field_get (field g1) 1 2 = 0 \<and> field_get (field g2) 1 2 = 1)"
proof -
  have f: "field_get (field last_column_game) 1 2 = 1"
    by (simp add: last_column_game_def field_get_def)
  have d1: "drawCell last_column_game 2 1 0 = SetContent 12 1 (CHR '' '')"
    and d2: "drawCell last_column_game 2 1 1 = SetContent 12 1 (CHR ''X'')"
    by (simp_all add: last_column_game_def drawCell_def)
  have "0 \<le> (2::int) \<and> 2 < width last_column_game \<and> 0 \<le> (1::int) \<and> 1 < height last_column_game"
    by (simp add: last_column_game_def)
  with C5_toggle_twice_restores [OF rows_made_last_column_game, of 2 1]
  obtain g1 g2 where
    "reverseCell last_column_game 2 1 =
       Some (g1, [drawCell last_column_game 2 1 (field_get (field last_column_game) 1 2 XOR 1)])"
    "reverseCell g1 2 1 =
       Some (g2, [drawCell last_column_game 2 1 (field_get (field last_column_game) 1 2)])"
    "field_get (field g1) 1 2 = field_get (field last_column_game) 1 2 XOR 1"
    "field_get (field g2) 1 2 = field_get (field last_column_game) 1 2"
    by blast
  then have "reverseCell last_column_game 2 1 = Some (g1, [SetContent 12 1 (CHR '' '')]) \<and>
       reverseCell g1 2 1 = Some (g2, [SetContent 12 1 (CHR ''X'')]) \<and>
       field_get (field g1) 1 2 = 0 \<and> field_get (field g2) 1 2 = 1"
    by (simp add: f d1 d2)
  then show ?thesis
    using rows_made_last_column_game by blast
qed

section \<open>The generation counter\<close>

text \<open>
  C6, as stated for any sequence of operations, fails: \<^verbatim>\<open>game.generation++\<close> is an
  unchecked increment of a 64-bit integer. A new game has generation 0, and after
  \<open>2^63\<close> ticks the counter reads \<open>-2^63\<close>, which is neither the number of ticks nor
  more than before; a game whose generation is the largest integer shows the same wrap in
  one tick.
\<close>

theorem C6_counterexample:
  "generation (NewGame 13 3) = 0 \<and>
   map_option (\<lambda>g. sint (generation g)) (run (NewGame 13 3) (replicate (2 ^ 63) Tick)) =
     Some (- (2 ^ 63)) \<and>
   sint (generation ((NewGame 13 3)\<lparr>generation := 9223372036854775807\<rparr>)) = 9223372036854775807 \<and>
   map_option (\<lambda>g. sint (generation g))
     (run ((NewGame 13 3)\<lparr>generation := 9223372036854775807\<rparr>) [Tick]) =
     Some (- 9223372036854775808)"
proof -
  have g0: "generation (NewGame 13 3) = 0"
    by (simp add: NewGame_def)
  obtain g1 where r1: "run (NewGame 13 3) (replicate (2 ^ 63) Tick) = Some g1"
    using run_ticks_total by blast
  have "generation g1 = of_nat (2 ^ 63)"
    using run_generation [OF r1] by (simp add: g0 count_replicate_Tick)
  then have s1: "sint (generation g1) = - (2 ^ 63)"
    by simp
  let ?m = "(NewGame 13 3)\<lparr>generation := 9223372036854775807\<rparr>"
  obtain g2 where r2: "run ?m [Tick] = Some g2"
    using run_ticks_total [of ?m 1] by auto
  have "generation g2 = 9223372036854775807 + 1"
    using run_generation [OF r2] by simp
  then have s2: "sint (generation g2) = - 9223372036854775808"
    by simp
  show ?thesis
    using g0 r1 s1 r2 s2 by simp
qed

text \<open>
  C6, amended: the generation of a new game is 0; \<^verbatim>\<open>tick\<close> always returns and adds
  exactly one in 64-bit arithmetic, \<^verbatim>\<open>resize\<close> always returns and leaves the
  generation alone, and so does \<^verbatim>\<open>reverseCell\<close> whenever it returns. Hence along any
  sequence of calls whose ticks keep the counter below \<open>2^63\<close> the generation never
  decreases, and after any prefix of the sequence it is the generation at the start plus
  the number of ticks performed.
\<close>

theorem C6_generation_counts_ticks:
  assumes "run g (cs1 @ cs2) = Some g2"
    "sint (generation g) + int (count_list (cs1 @ cs2) Tick) < 2 ^ 63"
  shows "generation (NewGame sw sh) = 0 \<and>
     (\<exists>g1. run g cs1 = Some g1 \<and>
        sint (generation g1) = sint (generation g) + int (count_list cs1 Tick) \<and>
        sint (generation g2) = sint (generation g1) + int (count_list cs2 Tick) \<and>
        sint (generation g1) \<le> sint (generation g2)) \<and>
     (\<exists>g'. exec g Tick = Some g' \<and> generation g' = generation g + 1) \<and>
     (\<exists>g'. exec g (Resize w h) = Some g' \<and> generation g' = generation g) \<and>
     (\<forall>g'. exec g (ReverseCell x y) = Some g' \<longrightarrow> generation g' = generation g)"
proof (intro conjI)
  show "generation (NewGame sw sh) = 0"
    by (simp add: NewGame_def Let_def)
next
  from assms(1) obtain g1 where r1: "run g cs1 = Some g1" and r2: "run g1 cs2 = Some g2"
    by (auto simp: run_append split: option.splits)
  have b1: "sint (generation g) + int (count_list cs1 Tick) < 2 ^ 63"
    using assms(2) by simp
  have s1: "sint (generation g1) = sint (generation g) + int (count_list cs1 Tick)"
    using run_generation [OF r1] sint_add_of_nat [OF b1] by simp
  have b2: "sint (generation g1) + int (count_list cs2 Tick) < 2 ^ 63"
    using assms(2) s1 by simp
  have s2: "sint (generation g2) = sint (generation g1) + int (count_list cs2 Tick)"
    using run_generation [OF r2] sint_add_of_nat [OF b2] by simp
  show "\<exists>g1. run g cs1 = Some g1 \<and>
        sint (generation g1) = sint (generation g) + int (count_list cs1 Tick) \<and>
        sint (generation g2) = sint (generation g1) + int (count_list cs2 Tick) \<and>
        sint (generation g1) \<le> sint (generation g2)"
    using r1 s1 s2 by simp
next
  from exec_total(1) [of g] obtain g' where e: "exec g Tick = Some g'" by blast
  from exec_generation [OF e] e
  show "\<exists>g'. exec g Tick = Some g' \<and> generation g' = generation g + 1" by auto
next
  from exec_total(2) [of g w h] obtain g' where e: "exec g (Resize w h) = Some g'" by blast
  from exec_generation [OF e] e
  show "\<exists>g'. exec g (Resize w h) = Some g' \<and> generation g' = generation g" by auto
next
  show "\<forall>g'. exec g (ReverseCell x y) = Some g' \<longrightarrow> generation g' = generation g"
    using exec_generation [of g "ReverseCell x y"] by simp
qed

theorem C6_witness:
  "\<exists>g1 g2. run (NewGame 13 3) (last_column_calls @ [Tick]) = Some g1 \<and>
     run (NewGame 13 3) ((last_column_calls @ [Tick]) @ [Resize 12 2, ReverseCell 0 0, Tick]) = Some g2 \<and>
     sint (generation g1) = 1 \<and> sint (generation g2) = 2"
proof -
  from run_demo obtain g2 where
    r: "run (NewGame 13 3) ((last_column_calls @ [Tick]) @ [Resize 12 2, ReverseCell 0 0, Tick]) = Some g2"
    by auto
  have g0: "generation (NewGame 13 3) = 0"
    by (simp add: NewGame_def)
  have b: "sint (generation (NewGame 13 3)) +
      int (count_list ((last_column_calls @ [Tick]) @ [Resize 12 2, ReverseCell 0 0, Tick]) Tick) < 2 ^ 63"
    by (simp add: g0 last_column_calls_def)
  from C6_generation_counts_ticks [OF r b, of 13 3 0 0 0 0] obtain g1 where
    "run (NewGame 13 3) (last_column_calls @ [Tick]) = Some g1"
    "sint (generation g1) =
       sint (generation (NewGame 13 3)) + int (count_list (last_column_calls @ [Tick]) Tick)"
    "sint (generation g2) =
       sint (generation g1) + int (count_list [Resize 12 2, ReverseCell 0 0, Tick] Tick)"
    by blast
  then show ?thesis
    using r by (simp add: g0 last_column_calls_def)
qed

section \<open>The delay\<close>

text \<open>
  C7, as stated for every starting value, fails: the delay is a 64-bit integer and
  \<^verbatim>\<open>increaseDelay\<close> adds 50 with no check, so from the largest duration one speed
  change wraps it to a negative value, and from the negative value -100 it gives -50.
\<close>

theorem C7_counterexample:
  "0 \<le> sint (delay ((NewGame 13 3)\<lparr>delay := 9223372036854775807\<rparr>)) \<and>
   map_option (\<lambda>g. sint (delay g))
     (run ((NewGame 13 3)\<lparr>delay := 9223372036854775807\<rparr>) [IncreaseDelay]) =
     Some (- 9223372036854775759) \<and>
   map_option (\<lambda>g. sint (delay g))
     (run ((NewGame 13 3)\<lparr>delay := - 100\<rparr>) [IncreaseDelay]) = Some (- 50)"
  by (simp add: NewGame_def increaseDelay_def)

text \<open>
  C7, amended: for every starting delay that is not negative and every sequence of
  \<^verbatim>\<open>increaseDelay\<close> and \<^verbatim>\<open>decreaseDelay\<close> calls whose increases keep the delay
  within the 64-bit range, each increase adds exactly 50, each decrease subtracts 50 or
  stops at 0, the delay is never negative, and the play flag is unchanged. A decrease
  gives a delay that is not negative from any delay whatever, and neither call touches
  the play flag.
\<close>

theorem C7_delay_stays_nonnegative:
  assumes "set cs \<subseteq> {IncreaseDelay, DecreaseDelay}" "0 \<le> sint (delay g)"
    "sint (delay g) + 50 * int (count_list cs IncreaseDelay) < 2 ^ 63"
  shows "(\<exists>g'. run g cs = Some g' \<and>
           sint (delay g') = foldl spec_delay (sint (delay g)) cs \<and>
           0 \<le> sint (delay g') \<and> evolution g' = evolution g) \<and>
         0 \<le> sint (delay (decreaseDelay g0)) \<and>
         evolution (decreaseDelay g0) = evolution g0 \<and>
         evolution (increaseDelay g0) = evolution g0"
proof (intro conjI)
  show "\<exists>g'. run g cs = Some g' \<and>
           sint (delay g') = foldl spec_delay (sint (delay g)) cs \<and>
           0 \<le> sint (delay g') \<and> evolution g' = evolution g"
    using assms by (rule run_speed)
next
  show "0 \<le> sint (delay (decreaseDelay g0))"
    by (rule decreaseDelay_nonneg)
next
  show "evolution (decreaseDelay g0) = evolution g0"
    by (simp add: decreaseDelay_def Let_def)
next
  show "evolution (increaseDelay g0) = evolution g0"
    by (simp add: increaseDelay_def)
qed

theorem C7_witness:
  "\<exists>g'. run (NewGame 13 3)
       [DecreaseDelay, DecreaseDelay, IncreaseDelay, DecreaseDelay, DecreaseDelay,
        DecreaseDelay, DecreaseDelay, DecreaseDelay, DecreaseDelay, DecreaseDelay,
        DecreaseDelay, DecreaseDelay, DecreaseDelay, IncreaseDelay] = Some g' \<and>
     sint (delay g') = 50 \<and> \<not> evolution g'"
proof -
  have "0 \<le> sint (delay (NewGame 13 3))"
    and "evolution (NewGame 13 3) = False"
    by (simp_all add: NewGame_def)
  with C7_delay_stays_nonnegative [of
      "[DecreaseDelay, DecreaseDelay, IncreaseDelay, DecreaseDelay, DecreaseDelay,
        DecreaseDelay, DecreaseDelay, DecreaseDelay, DecreaseDelay, DecreaseDelay,
        DecreaseDelay, DecreaseDelay, DecreaseDelay, IncreaseDelay]" "NewGame 13 3" "NewGame 13 3"]
  show ?thesis
    by (simp add: NewGame_def)
qed

section \<open>Mouse events and resize events\<close>

text \<open>
  C8, as stated, fails: the mouse case of the event loop tests the primary button and
  \<^verbatim>\<open>x >= game.stateWidth\<close> and nothing else. In a 3 by 3 game a click at screen
  column 13 toggles the cell at grid column 3, which is out of range, and a click on
  screen row 3 makes \<^verbatim>\<open>reverseCell\<close> assign into a row map that was never made,
  which is a panic.
\<close>

theorem C8_counterexample:
  "map_option (\<lambda>(g, out). (width g, height g, field_get (field g) 0 3, out))
     (handleEvent (NewGame 13 3) (EventMouse Button1 13 0)) =
     Some (3, 3, 1, [SetContent 13 0 (CHR ''X'')]) \<and>
   handleEvent (NewGame 13 3) (EventMouse Button1 10 3) = None"
  by (simp add: Button1_def NewGame_def reverseCell_def drawCell_def
      makeNewMap_def makeNewMap_loop.simps field_set_def field_get_def)

text \<open>
  C8, amended: for every mouse event in a game whose field has its rows, an event without
  the primary button or with its screen x inside the left status margin changes nothing;
  any other event toggles the cell at \<open>(x - stateWidth, y)\<close>, whose column is at least 0
  and is not compared with the width: on a row of the grid exactly that one cell flips
  and it is drawn, and on a row outside the grid the program panics.
\<close>

theorem C8_mouse_dispatch:
  assumes "rows_made g"
  shows "(b AND Button1 = 0 \<or> x < stateWidth g \<longrightarrow>
            handleEvent g (EventMouse b x y) = Some (g, [])) \<and>
         (b AND Button1 \<noteq> 0 \<and> stateWidth g \<le> x \<and> 0 \<le> y \<and> y < height g \<longrightarrow>
            (\<exists>g'. handleEvent g (EventMouse b x y) =
                 Some (g', [drawCell g (x - stateWidth g) y
                              (field_get (field g) y (x - stateWidth g) XOR 1)]) \<and>
               0 \<le> x - stateWidth g \<and>
               (\<forall>y' x'. field_get (field g') y' x' =
                  (if y' = y \<and> x' = x - stateWidth g
                   then field_get (field g) y (x - stateWidth g) XOR 1
                   else field_get (field g) y' x')) \<and>
               g'\<lparr>field := field g\<rparr> = g)) \<and>
         (b AND Button1 \<noteq> 0 \<and> stateWidth g \<le> x \<and> \<not> (0 \<le> y \<and> y < height g) \<longrightarrow>
            handleEvent g (EventMouse b x y) = None)"
proof (intro conjI impI)
  assume "b AND Button1 = 0 \<or> x < stateWidth g"
  then show "handleEvent g (EventMouse b x y) = Some (g, [])"
    by auto
next
  assume a: "b AND Button1 \<noteq> 0 \<and> stateWidth g \<le> x \<and> 0 \<le> y \<and> y < height g"
  then have row: "field g y \<noteq> None"
    using assms by (simp add: rows_made_def)
  from reverseCell_result [OF row, of "x - stateWidth g"] obtain g' where
    r: "reverseCell g (x - stateWidth g) y =
          Some (g', [drawCell g (x - stateWidth g) y (field_get (field g) y (x - stateWidth g) XOR 1)])"
    and eq: "g' = g\<lparr>field := field g'\<rparr>"
    and cells: "\<forall>y' x'. field_get (field g') y' x' =
        (if y' = y \<and> x' = x - stateWidth g
         then field_get (field g) y (x - stateWidth g) XOR 1 else field_get (field g) y' x')"
    by blast
  have h: "handleEvent g (EventMouse b x y) =
          Some (g', [drawCell g (x - stateWidth g) y (field_get (field g) y (x - stateWidth g) XOR 1)])"
    using a r by simp
  have rec: "g'\<lparr>field := field g\<rparr> = g"
    by (subst eq) simp
  have "0 \<le> x - stateWidth g" using a by simp
  with h cells rec
  show "\<exists>g'. handleEvent g (EventMouse b x y) =
                 Some (g', [drawCell g (x - stateWidth g) y
                              (field_get (field g) y (x - stateWidth g) XOR 1)]) \<and>
               0 \<le> x - stateWidth g \<and>
               (\<forall>y' x'. field_get (field g') y' x' =
                  (if y' = y \<and> x' = x - stateWidth g
                   then field_get (field g) y (x - stateWidth g) XOR 1
                   else field_get (field g) y' x')) \<and>
               g'\<lparr>field := field g\<rparr> = g"
    by blast
next
  assume a: "b AND Button1 \<noteq> 0 \<and> stateWidth g \<le> x \<and> \<not> (0 \<le> y \<and> y < height g)"
  from assms have "(field g y \<noteq> None) = (0 \<le> y \<and> y < height g)"
    by (simp add: rows_made_def)
  with a have "field g y = None"
    by blast
  then show "handleEvent g (EventMouse b x y) = None"
    using a by (simp add: reverseCell_panic)
qed

theorem C8_witness:
  "rows_made (NewGame 13 3) \<and>
   handleEvent (NewGame 13 3) (EventMouse Button1 9 1) = Some (NewGame 13 3, []) \<and>
   handleEvent (NewGame 13 3) (EventMouse 2 12 1) = Some (NewGame 13 3, []) \<and>
   (\<exists>g'. handleEvent (NewGame 13 3) (EventMouse Button1 12 1) =
            Some (g', [SetContent 12 1 (CHR ''X'')]) \<and> field_get (field g') 1 2 = 1) \<and>
   handleEvent (NewGame 13 3) (EventMouse Button1 12 3) = None"
proof -
  have g: "stateWidth (NewGame 13 3) = 10" "height (NewGame 13 3) = 3"
    "field_get (field (NewGame 13 3)) 1 2 = 0"
    by (simp_all add: NewGame_def field_get_makeNewMap)
  have b: "(Button1 AND Button1 \<noteq> 0) = True" "((2 :: 16 word) AND Button1 = 0) = True"
    by (simp_all add: Button1_def)
  have d: "drawCell (NewGame 13 3) 2 1 1 = SetContent 12 1 (CHR ''X'')"
    by (simp add: drawCell_def g)
  from C8_mouse_dispatch [OF rows_made_NewGame, of Button1 9 13 3 1]
  have 1: "handleEvent (NewGame 13 3) (EventMouse Button1 9 1) = Some (NewGame 13 3, [])"
    by (simp add: g)
  from C8_mouse_dispatch [OF rows_made_NewGame, of 2 12 13 3 1]
  have 2: "handleEvent (NewGame 13 3) (EventMouse 2 12 1) = Some (NewGame 13 3, [])"
    by (simp add: g b)
  have p: "Button1 AND Button1 \<noteq> 0 \<and> stateWidth (NewGame 13 3) \<le> 12 \<and>
      0 \<le> (1 :: int) \<and> 1 < height (NewGame 13 3)"
    by (simp add: g Button1_def)
  with C8_mouse_dispatch [OF rows_made_NewGame, of Button1 12 13 3 1] obtain g' where
    "handleEvent (NewGame 13 3) (EventMouse Button1 12 1) =
       Some (g', [drawCell (NewGame 13 3) (12 - stateWidth (NewGame 13 3)) 1
                    (field_get (field (NewGame 13 3)) 1 (12 - stateWidth (NewGame 13 3)) XOR 1)])"
    "\<forall>y' x'. field_get (field g') y' x' =
        (if y' = 1 \<and> x' = 12 - stateWidth (NewGame 13 3)
         then field_get (field (NewGame 13 3)) 1 (12 - stateWidth (NewGame 13 3)) XOR 1
         else field_get (field (NewGame 13 3)) y' x')"
    by blast
  then have 3: "\<exists>g'. handleEvent (NewGame 13 3) (EventMouse Button1 12 1) =
            Some (g', [SetContent 12 1 (CHR ''X'')]) \<and> field_get (field g') 1 2 = 1"
    by (simp add: g d)
  from C8_mouse_dispatch [OF rows_made_NewGame, of Button1 12 13 3 3]
  have 4: "handleEvent (NewGame 13 3) (EventMouse Button1 12 3) = None"
    by (simp add: g Button1_def)
  from 1 2 3 4 rows_made_NewGame show ?thesis by blast
qed

text \<open>
  C9, as stated, fails: neither \<^verbatim>\<open>NewGame\<close> nor the resize case of the event loop
  rejects a size. A terminal of 10 columns gives a new game of width 0, and a resize event
  for a terminal of 10 by 0 or 7 by 0 gives a grid of width 0 or -3 and height 0.
\<close>

theorem C9_counterexample:
  "width (NewGame 10 5) = 0 \<and>
   map_option (\<lambda>(g, out). (width g, height g))
     (handleEvent (NewGame 80 24) (EventResize 10 0)) = Some (0, 0) \<and>
   map_option (\<lambda>(g, out). (width g, height g))
     (handleEvent (NewGame 80 24) (EventResize 7 0)) = Some (- 3, 0)"
  by (simp add: NewGame_def resize_def resize_rows.simps)

text \<open>
  C9, amended: a new game on a terminal of \<open>sw\<close> by \<open>sh\<close> has width \<open>sw - 10\<close> and
  height \<open>sh\<close>, and a resize event for a terminal of \<open>tw\<close> by \<open>th\<close> always reaches
  \<^verbatim>\<open>resize\<close> and sets the width to \<open>tw - stateWidth\<close> and the height to \<open>th\<close>;
  so both are at least 1 exactly when the terminal is wider than the status margin and
  has at least one row.
\<close>

theorem C9_sizes_are_not_checked:
  "width (NewGame sw sh) = sw - 10 \<and> height (NewGame sw sh) = sh \<and>
   stateWidth (NewGame sw sh) = 10 \<and>
   (\<exists>g' out. handleEvent g (EventResize tw th) = Some (g', out) \<and>
      width g' = tw - stateWidth g \<and> height g' = th \<and> stateWidth g' = stateWidth g \<and>
      (1 \<le> width g' \<and> 1 \<le> height g') = (stateWidth g + 1 \<le> tw \<and> 1 \<le> th))"
proof -
  from resize_result [of g tw th] obtain g' out where
    r: "resize g tw th = Some (g', out)"
    and eq: "g' = g\<lparr>evolution := False, width := tw - stateWidth g, height := th, field := field g'\<rparr>"
    by blast
  have "width g' = tw - stateWidth g" "height g' = th" "stateWidth g' = stateWidth g"
    by (subst eq, simp)+
  then have "\<exists>g' out. handleEvent g (EventResize tw th) = Some (g', out) \<and>
      width g' = tw - stateWidth g \<and> height g' = th \<and> stateWidth g' = stateWidth g \<and>
      (1 \<le> width g' \<and> 1 \<le> height g') = (stateWidth g + 1 \<le> tw \<and> 1 \<le> th)"
    using r by auto
  then show ?thesis
    by (simp add: NewGame_def Let_def)
qed

theorem C9_witness:
  "width (NewGame 80 24) = 70 \<and> height (NewGame 80 24) = 24 \<and>
   (\<exists>g' out. handleEvent (NewGame 80 24) (EventResize 100 30) = Some (g', out) \<and>
      width g' = 90 \<and> height g' = 30)"
  using C9_sizes_are_not_checked [of 80 24 "NewGame 80 24" 100 30]
  by auto

section \<open>The rule is Conway's\<close>

text \<open>
  C10: the rule as implemented, the total of the wrapped 3 by 3 block with the cell itself,
  3 for alive, 4 for unchanged and dead otherwise, is Conway's rule on the eight
  neighbours, for every grid of binary cells with width and height at least 3 and every
  cell in range: a live cell survives with two or three live neighbours and a dead cell
  is born with exactly three.
\<close>

theorem C10_rule_is_conway:
  assumes "binary_cells g" "3 \<le> width g" "3 \<le> height g"
    "0 \<le> x" "x < width g" "0 \<le> y" "y < height g"
  shows "nextCellState g x y =
     (let total = spec_neighborCount g x y + uint (field_get (field g) y x)
      in if total = 3 then 1 else if total = 4 then field_get (field g) y x else 0) \<and>
     nextCellState g x y =
     (if conway_rule (field_get (field g) y x = 1) (spec_neighborCount g x y) then 1 else 0)"
proof
  show "nextCellState g x y =
     (let total = spec_neighborCount g x y + uint (field_get (field g) y x)
      in if total = 3 then 1 else if total = 4 then field_get (field g) y x else 0)"
    using assms by (intro nextCellState_total9) auto
next
  show "nextCellState g x y =
     (if conway_rule (field_get (field g) y x = 1) (spec_neighborCount g x y) then 1 else 0)"
    using assms by (rule conway_equiv)
qed

theorem C10_witness:
  "binary_cells last_column_game \<and>
   conway_rule (field_get (field last_column_game) 1 2 = 1) (spec_neighborCount last_column_game 2 1) \<and>
   nextCellState last_column_game 2 1 = 1"
  using C10_rule_is_conway [of last_column_game 2 1] binary_cells_last_column_game
  by (simp add: last_column_game_def spec_neighborCount_def field_get_def conway_rule_def)

end
